theory Spec2Isabelle
  imports Main "HOL-Library.Multiset"
begin

section \<open>Whole-word-mask data collator (data\_collator.py)\<close>

text \<open>
  A shallow embedding of \<^verbatim>\<open>examples/pytorch/language-modeling/utils/data_collator.py\<close>:
  the word-start classifier \<^verbatim>\<open>_is_start_piece_sp\<close>, the candidate grouper and selector
  \<^verbatim>\<open>_whole_word_mask\<close>, the corruption policy \<^verbatim>\<open>mask_tokens\<close> and the entry point
  \<^verbatim>\<open>__call__\<close> of \<^verbatim>\<open>AlbertDataCollatorForWholeWordMask\<close>.
\<close>

subsection \<open>Python values\<close>

text \<open>
  A Python 3 \<^verbatim>\<open>str\<close> is a sequence of Unicode code points, a \<^verbatim>\<open>bytes\<close> object a sequence
  of bytes. The two are different types: a \<^verbatim>\<open>str\<close> never compares equal to a \<^verbatim>\<open>bytes\<close>.
\<close>

type_synonym pystr = "nat list"

datatype pyobj = Str pystr | Bytes string

abbreviation str :: "string \<Rightarrow> pystr" where
  "str s \<equiv> map of_char s"

text \<open>
  The exceptions of the model. \<open>ShapeError\<close> stands for tensors that do not have one
  shape, where torch raises or broadcasts; the model covers tensors of one shape.
\<close>

datatype error =
    AssertionError | IndexError | KeyError | ValueError | OverflowError | RuntimeError
  | ShapeError

definition startswith :: "pystr \<Rightarrow> pystr \<Rightarrow> bool" where
  "startswith piece prefix = (take (length prefix) piece = prefix)"

subsection \<open>The word-start classifier\<close>

text \<open>
  The literal of line 16 holds, in this order, the characters
  \<^verbatim>\<open>! " # $ % & " ( ) * + , - . / : ; ? @ [ \ ] ^ _ ` { | } ~\<close>:
  the double quote occurs twice, and the apostrophe, the less-than sign, the equals sign
  and the greater-than sign do not occur. \<^verbatim>\<open>set(list(...))\<close> makes a set of
  one-character \<^verbatim>\<open>str\<close> objects of it.
\<close>

definition special_chars :: string where
  "special_chars =
     ''!'' @ [CHR 0x22] @ ''#$%&'' @ [CHR 0x22] @ ''()*+,-./:;?@['' @ [CHR 0x5C] @ '']^_`{|}~''"

text \<open>
  Lines 17 and 18 add \<^verbatim>\<open>u"\<euro>".encode("utf-8")\<close> and the same for the pound sign:
  the UTF-8 encodings, which are \<^verbatim>\<open>bytes\<close> objects (E2 82 AC and C2 A3).
\<close>

definition special_pieces :: "pyobj set" where
  "special_pieces =
     insert (Bytes [CHR 0xC2, CHR 0xA3])
       (insert (Bytes [CHR 0xE2, CHR 0x82, CHR 0xAC])
          ((\<lambda>c. Str [of_char c]) ` set special_chars))"

text \<open>The word-boundary marker is U+2581 (LOWER ONE EIGHTH BLOCK).\<close>

definition word_marker :: pystr where
  "word_marker = [0x2581]"

definition is_start_piece_sp :: "pystr \<Rightarrow> bool" where
  "is_start_piece_sp piece =
     (if startswith piece word_marker
         \<or> startswith piece (str ''<'')
         \<or> Str piece \<in> special_pieces
      then True else False)"

text \<open>
  The classification as the specification words it: the fixed set is every ASCII
  punctuation character (Python's \<^verbatim>\<open>string.punctuation\<close>, 32 characters) and the two
  currency glyphs U+20AC and U+00A3, as strings.
\<close>

definition ascii_punctuation :: string where
  "ascii_punctuation =
     ''!'' @ [CHR 0x22] @ ''#$%&'' @ [CHR 0x27] @ ''()*+,-./:;<=>?@['' @ [CHR 0x5C] @ '']^_`{|}~''"

definition spec_symbol_set :: "pystr set" where
  "spec_symbol_set = insert [0x20AC] (insert [0xA3] ((\<lambda>c. [of_char c]) ` set ascii_punctuation))"

definition spec_is_start_piece :: "pystr \<Rightarrow> bool" where
  "spec_is_start_piece piece =
     (startswith piece word_marker \<or> startswith piece (str ''<'') \<or> piece \<in> spec_symbol_set)"

subsection \<open>The collaborators: tokenizer, padding, randomness\<close>

text \<open>
  An example of a batch is a list of ids (or a one-dimensional tensor) or a
  dict/\<^verbatim>\<open>BatchEncoding\<close> from keys to id lists. A two-dimensional tensor is the list of its
  rows; a batch is a dict from keys to tensors.
\<close>

type_synonym tensor = "int list list"

type_synonym batch = "string \<rightharpoonup> tensor"

datatype example = Ids "int list" | Enc "string \<rightharpoonup> int list"

text \<open>
  The tokenizer is used through its properties and methods only; they are fields here.
  \<^verbatim>\<open>cls_token\<close> and \<^verbatim>\<open>sep_token\<close> are a \<^verbatim>\<open>str\<close> or \<^verbatim>\<open>None\<close>;
  \<open>mask_token_id\<close> is \<^verbatim>\<open>convert_tokens_to_ids(mask_token)\<close> and \<open>vocab_len\<close> is
  \<^verbatim>\<open>len(self.tokenizer)\<close>.
\<close>

record tokenizer =
  cls_token :: "pystr option"
  sep_token :: "pystr option"
  mask_token_id :: int
  vocab_len :: int
  convert_ids_to_tokens :: "int list \<Rightarrow> pystr list"
  get_special_tokens_mask :: "int list \<Rightarrow> int list"
  pad :: "example list \<Rightarrow> nat option \<Rightarrow> error + batch"

text \<open>
  The collator. \<open>round_scaled n\<close> is the value of
  \<^verbatim>\<open>int(round(n * self.mlm_probability))\<close>, a double-precision computation that is kept
  abstract (it raises for a probability that is not finite). \<open>torch_collate_batch\<close> is
  \<^verbatim>\<open>_torch_collate_batch(examples, self.tokenizer, pad_to_multiple_of)\<close> of the library.
\<close>

record collator =
  tokenizer :: tokenizer
  mlm :: bool
  pad_to_multiple_of :: "nat option"
  round_scaled :: "nat \<Rightarrow> error + int"
  torch_collate_batch :: "example list \<Rightarrow> nat option \<Rightarrow> error + tensor"

text \<open>
  The outcomes of the random draws of one call: the permutation that
  \<^verbatim>\<open>random.shuffle\<close> applies for each row of the batch, the two Bernoulli tensors and the
  tensor of random words, the last three by position.
\<close>

record draws =
  shuffle_row :: "nat \<Rightarrow> nat list list \<Rightarrow> nat list list"
  bernoulli_replace :: "nat \<Rightarrow> nat \<Rightarrow> bool"
  bernoulli_random :: "nat \<Rightarrow> nat \<Rightarrow> bool"
  random_words :: "nat \<Rightarrow> nat \<Rightarrow> int"

subsection \<open>The candidate grouper\<close>

definition is_cls_or_sep :: "tokenizer \<Rightarrow> pystr \<Rightarrow> bool" where
  "is_cls_or_sep tk token = (Some token = cls_token tk \<or> Some token = sep_token tk)"

text \<open>One iteration of the loop of lines 79 to 86.\<close>

fun cand_step :: "tokenizer \<Rightarrow> nat list list \<Rightarrow> nat \<times> pystr \<Rightarrow> nat list list" where
  "cand_step tk cand_indexes (i, token) =
     (if is_cls_or_sep tk token then cand_indexes
      else if length cand_indexes \<ge> 1 \<and> \<not> is_start_piece_sp token
           then butlast cand_indexes @ [last cand_indexes @ [i]]
      else cand_indexes @ [[i]])"

definition cand_indexes :: "tokenizer \<Rightarrow> pystr list \<Rightarrow> nat list list" where
  "cand_indexes tk input_tokens = foldl (cand_step tk) [] (enumerate 0 input_tokens)"

subsection \<open>The selection under the budget\<close>

text \<open>
  Lines 107 to 109: every index of the group is added to the covered set and its mask label
  set to 1. An index outside the tensor raises IndexError.
\<close>

fun mark :: "nat list \<Rightarrow> nat set \<times> int list \<Rightarrow> error + nat set \<times> int list" where
  "mark [] st = Inr st"
| "mark (index # rest) (covered_indexes, mask_labels) =
     (if index < length mask_labels
      then mark rest (insert index covered_indexes, mask_labels[index := 1])
      else Inl IndexError)"

text \<open>Lines 94 to 109: the walk over the shuffled groups, with its break and its two skips.\<close>

fun select :: "int \<Rightarrow> nat list list \<Rightarrow> nat set \<times> int list \<Rightarrow> error + nat set \<times> int list" where
  "select num_to_predict [] st = Inr st"
| "select num_to_predict (index_set # rest) (covered_indexes, mask_labels) =
     (if int (card covered_indexes) \<ge> num_to_predict then Inr (covered_indexes, mask_labels)
      else if int (card covered_indexes) + int (length index_set) > num_to_predict
           then select num_to_predict rest (covered_indexes, mask_labels)
      else if (\<exists>index \<in> set index_set. index \<in> covered_indexes)
           then select num_to_predict rest (covered_indexes, mask_labels)
      else (case mark index_set (covered_indexes, mask_labels) of
              Inl e \<Rightarrow> Inl e
            | Inr st \<Rightarrow> select num_to_predict rest st))"

definition num_to_predict :: "int \<Rightarrow> int \<Rightarrow> int" where
  "num_to_predict max_predictions r = min max_predictions (max 1 r)"

definition whole_word_mask ::
  "collator \<Rightarrow> (nat list list \<Rightarrow> nat list list) \<Rightarrow> int \<Rightarrow> pystr list \<Rightarrow> error + int list" where
  "whole_word_mask c shuffle max_predictions input_tokens =
     (let shuffled = shuffle (cand_indexes (tokenizer c) input_tokens) in
      case round_scaled c (length input_tokens) of
        Inl e \<Rightarrow> Inl e
      | Inr r \<Rightarrow>
          (case select (num_to_predict max_predictions r) shuffled
                  ({}, replicate (length input_tokens) 0) of
             Inl e \<Rightarrow> Inl e
           | Inr (covered_indexes, mask_labels) \<Rightarrow> Inr mask_labels))"

definition ones :: "int list \<Rightarrow> nat" where
  "ones v = length (filter (\<lambda>x. x = 1) v)"

text \<open>The positions of a mask-label vector that hold 1.\<close>

definition ones_set :: "int list \<Rightarrow> nat set" where
  "ones_set ml = {i. i < length ml \<and> ml ! i = 1}"

subsection \<open>Tensors\<close>

definition same_shape :: "'a list list \<Rightarrow> 'b list list \<Rightarrow> bool" where
  "same_shape a b = (map length a = map length b)"

definition tmap :: "('a \<Rightarrow> 'b) \<Rightarrow> 'a list list \<Rightarrow> 'b list list" where
  "tmap f a = map (map f) a"

definition tmap2 :: "('a \<Rightarrow> 'b \<Rightarrow> 'c) \<Rightarrow> 'a list list \<Rightarrow> 'b list list \<Rightarrow> 'c list list" where
  "tmap2 f a b = map2 (map2 f) a b"

text \<open>A tensor of the shape of \<open>a\<close> whose entries are drawn by position.\<close>

definition drawn_like :: "'a list list \<Rightarrow> (nat \<Rightarrow> nat \<Rightarrow> 'b) \<Rightarrow> 'b list list" where
  "drawn_like a f = map (\<lambda>i. map (f i) [0..<length (a ! i)]) [0..<length a]"

subsection \<open>The corruption policy\<close>

text \<open>
  Lines 126 to 132: the special-tokens mask as a boolean tensor, derived row by row from the
  tokenizer when the caller gave none.
\<close>

definition special_mask :: "collator \<Rightarrow> tensor \<Rightarrow> tensor option \<Rightarrow> bool list list" where
  "special_mask c labels special_tokens_mask =
     (case special_tokens_mask of
        None \<Rightarrow> map (\<lambda>val. map (\<lambda>x. x \<noteq> 0) (get_special_tokens_mask (tokenizer c) val)) labels
      | Some m \<Rightarrow> tmap (\<lambda>x. x \<noteq> 0) m)"

text \<open>Line 134: \<^verbatim>\<open>probability_matrix.masked_fill_(special_tokens_mask, value=0.0)\<close>.\<close>

definition masked_fill :: "tensor \<Rightarrow> bool list list \<Rightarrow> tensor" where
  "masked_fill probability_matrix special = tmap2 (\<lambda>p s. if s then 0 else p) probability_matrix special"

text \<open>Line 136.\<close>

definition masked_indices :: "tensor \<Rightarrow> bool list list" where
  "masked_indices probability_matrix = tmap (\<lambda>p. p \<noteq> 0) probability_matrix"

text \<open>Line 137: \<^verbatim>\<open>labels[~masked_indices] = -100\<close>.\<close>

definition ignore_unmasked :: "tensor \<Rightarrow> bool list list \<Rightarrow> tensor" where
  "ignore_unmasked labels masked = tmap2 (\<lambda>l m. if \<not> m then - 100 else l) labels masked"

text \<open>Lines 140 and 144.\<close>

definition indices_replaced :: "draws \<Rightarrow> tensor \<Rightarrow> bool list list \<Rightarrow> bool list list" where
  "indices_replaced g labels masked =
     tmap2 (\<lambda>b m. b \<and> m) (drawn_like labels (bernoulli_replace g)) masked"

definition indices_random ::
  "draws \<Rightarrow> tensor \<Rightarrow> bool list list \<Rightarrow> bool list list \<Rightarrow> bool list list" where
  "indices_random g labels masked replaced =
     tmap2 (\<lambda>bm r. bm \<and> \<not> r)
       (tmap2 (\<lambda>b m. b \<and> m) (drawn_like labels (bernoulli_random g)) masked) replaced"

text \<open>Lines 141 and 146: assignment under a boolean index.\<close>

definition assign_where :: "tensor \<Rightarrow> bool list list \<Rightarrow> tensor \<Rightarrow> tensor" where
  "assign_where inputs idx vals =
     tmap2 (\<lambda>(x, v) b. if b then v else x) (tmap2 Pair inputs vals) idx"

text \<open>
  \<^verbatim>\<open>mask_tokens\<close> changes two of its arguments in place: \<^verbatim>\<open>inputs\<close> (lines 141 and 146)
  and \<^verbatim>\<open>mask_labels\<close>, of which \<^verbatim>\<open>probability_matrix\<close> is an alias (line 134). The
  model returns the outcome of the call together with the contents of these two tensor
  objects when the call ends, normally or by an exception.
\<close>

definition mask_tokens ::
  "collator \<Rightarrow> draws \<Rightarrow> tensor \<Rightarrow> tensor \<Rightarrow> tensor option
     \<Rightarrow> (error + tensor \<times> tensor) \<times> (tensor \<times> tensor)" where
  "mask_tokens c g inputs mask_labels special_tokens_mask =
     (if \<not> mlm c then (Inl AssertionError, (inputs, mask_labels))
      else
        let labels = inputs;
            special = special_mask c labels special_tokens_mask
        in if \<not> same_shape mask_labels special
           then (Inl ShapeError, (inputs, mask_labels))
           else
             let probability_matrix = masked_fill mask_labels special;
                 masked = masked_indices probability_matrix
             in if \<not> same_shape labels masked
                then (Inl ShapeError, (inputs, probability_matrix))
                else
                  let labels = ignore_unmasked labels masked;
                      replaced = indices_replaced g labels masked;
                      inputs1 = assign_where inputs replaced
                                  (tmap (\<lambda>_. mask_token_id (tokenizer c)) inputs);
                      random = indices_random g labels masked replaced
                  in if vocab_len (tokenizer c) \<le> 0
                     then (Inl RuntimeError, (inputs1, probability_matrix))
                     else
                       let inputs2 = assign_where inputs1 random
                                       (drawn_like labels (random_words g))
                       in (Inr (inputs2, labels), (inputs2, probability_matrix)))"

subsection \<open>The entry point\<close>

text \<open>Lines 60 to 63: one mask-label vector per row, each with its own shuffle.\<close>

fun mask_rows :: "collator \<Rightarrow> draws \<Rightarrow> nat \<Rightarrow> tensor \<Rightarrow> error + int list list" where
  "mask_rows c g k [] = Inr []"
| "mask_rows c g k (e # es) =
     (case whole_word_mask c (shuffle_row g k) 512 (convert_ids_to_tokens (tokenizer c) e) of
        Inl err \<Rightarrow> Inl err
      | Inr m \<Rightarrow>
          (case mask_rows c g (Suc k) es of
             Inl err \<Rightarrow> Inl err
           | Inr ms \<Rightarrow> Inr (m # ms)))"

text \<open>Lines 52 to 55: \<^verbatim>\<open>examples[0]\<close> raises IndexError on an empty list.\<close>

definition collate_examples :: "collator \<Rightarrow> example list \<Rightarrow> error + batch" where
  "collate_examples c examples =
     (case examples of
        [] \<Rightarrow> Inl IndexError
      | Enc d # _ \<Rightarrow> pad (tokenizer c) examples (pad_to_multiple_of c)
      | Ids l # _ \<Rightarrow>
          (case torch_collate_batch c examples (pad_to_multiple_of c) of
             Inl e \<Rightarrow> Inl e
           | Inr t \<Rightarrow> Inr [''input_ids'' \<mapsto> t]))"

definition call :: "collator \<Rightarrow> draws \<Rightarrow> example list \<Rightarrow> error + batch" where
  "call c g examples =
     (case collate_examples c examples of
        Inl e \<Rightarrow> Inl e
      | Inr batch0 \<Rightarrow>
          let special_tokens_mask = batch0 ''special_tokens_mask'';
              batch = batch0(''special_tokens_mask'' := None)
          in (case batch ''input_ids'' of
                None \<Rightarrow> Inl KeyError
              | Some input_ids \<Rightarrow>
                  (case mask_rows c g 0 input_ids of
                     Inl e \<Rightarrow> Inl e
                   | Inr mask_labels \<Rightarrow>
                       (case torch_collate_batch c (map Ids mask_labels) (pad_to_multiple_of c) of
                          Inl e \<Rightarrow> Inl e
                        | Inr batch_mask \<Rightarrow>
                            (case fst (mask_tokens c g input_ids batch_mask special_tokens_mask) of
                               Inl e \<Rightarrow> Inl e
                             | Inr (inputs, labels) \<Rightarrow>
                                 Inr (batch(''input_ids'' \<mapsto> inputs, ''labels'' \<mapsto> labels)))))))"

subsection \<open>A concrete collator\<close>

text \<open>
  A small tokenizer in the ALBERT style, a collator over it and one outcome of the random
  draws, for the concrete runs below. The probability is 1/4, for which
  \<^verbatim>\<open>int(round(n * 0.25))\<close> is exact in double precision: Python rounds a half to the
  even neighbour.
\<close>

definition round_half_even :: "int \<Rightarrow> int \<Rightarrow> int" where
  "round_half_even a b =
     (let q = a div b; r = a mod b
      in if 2 * r < b then q else if 2 * r > b then q + 1 else if even q then q else q + 1)"

definition ex_token :: "int \<Rightarrow> pystr" where
  "ex_token i =
     (if i = 0 then str ''<pad>''
      else if i = 2 then str ''[CLS]''
      else if i = 3 then str ''[SEP]''
      else if i = 4 then str ''[MASK]''
      else if i = 5 then word_marker @ str ''the''
      else if i = 6 then word_marker @ str ''quick''
      else if i = 7 then str ''fox''
      else str ''<unk>'')"

definition ids_of :: "example \<Rightarrow> int list" where
  "ids_of e = (case e of Ids l \<Rightarrow> l | Enc d \<Rightarrow> [])"

definition ex_pad :: "example list \<Rightarrow> nat option \<Rightarrow> error + batch" where
  "ex_pad examples multiple =
     (case examples of
        [Enc d] \<Rightarrow> Inr (\<lambda>k. map_option (\<lambda>row. [row]) (d k))
      | _ \<Rightarrow> Inl ValueError)"

definition ex_tokenizer :: tokenizer where
  "ex_tokenizer =
     \<lparr> cls_token = Some (str ''[CLS]''),
       sep_token = Some (str ''[SEP]''),
       mask_token_id = 4,
       vocab_len = 8,
       convert_ids_to_tokens = map ex_token,
       get_special_tokens_mask = map (\<lambda>i. if i \<in> {0, 1, 2, 3, 4} then 1 else 0),
       pad = ex_pad \<rparr>"

definition ex_collator :: collator where
  "ex_collator =
     \<lparr> tokenizer = ex_tokenizer,
       mlm = True,
       pad_to_multiple_of = None,
       round_scaled = (\<lambda>n. Inr (round_half_even (int n) 4)),
       torch_collate_batch = (\<lambda>examples multiple. Inr (map ids_of examples)) \<rparr>"

definition ex_draws :: draws where
  "ex_draws =
     \<lparr> shuffle_row = (\<lambda>k. rev),
       bernoulli_replace = (\<lambda>i j. even j),
       bernoulli_random = (\<lambda>i j. True),
       random_words = (\<lambda>i j. 7) \<rparr>"

definition ex_tokens :: "pystr list" where
  "ex_tokens = map ex_token [2, 5, 6, 7, 3]"

text \<open>
  One dict example with a preprocessed special-tokens mask, the batch that the padding makes
  of it, and the lookup of a key in the outcome of a call.
\<close>

definition ex_enc :: "string \<rightharpoonup> int list" where
  "ex_enc =
     [''input_ids'' \<mapsto> [2, 5, 6, 7, 3, 0],
      ''attention_mask'' \<mapsto> [1, 1, 1, 1, 1, 0],
      ''special_tokens_mask'' \<mapsto> [1, 0, 0, 0, 1, 1]]"

definition ex_examples :: "example list" where
  "ex_examples = [Enc ex_enc]"

definition ex_padded :: batch where
  "ex_padded = (\<lambda>k. map_option (\<lambda>row. [row]) (ex_enc k))"

definition lookup :: "error + batch \<Rightarrow> string \<Rightarrow> tensor option" where
  "lookup r k = (case r of Inl e \<Rightarrow> None | Inr b \<Rightarrow> b k)"

section \<open>The word-start classifier\<close>

lemma special_pieces_Str:
  "Str piece \<in> special_pieces \<longleftrightarrow> piece \<in> (\<lambda>c. [of_char c]) ` set special_chars"
  by (auto simp: special_pieces_def)

text \<open>
  C6, as the claim states it: the classifier agrees with the classification over every ASCII
  punctuation character and the two currency glyphs. It does not: the token \<^verbatim>\<open>=\<close> is an
  ASCII punctuation character, and the classifier returns false for it.
\<close>

theorem is_start_piece_sp_counterexample:
  "is_start_piece_sp (str ''='') \<noteq> spec_is_start_piece (str ''='')"
  by (simp add: is_start_piece_sp_def spec_is_start_piece_def startswith_def word_marker_def
      special_pieces_def special_chars_def spec_symbol_set_def ascii_punctuation_def)

lemma symbol_sets:
  "(\<lambda>c. [of_char c :: nat]) ` set special_chars =
     spec_symbol_set - {[0x27], str ''<'', str ''='', str ''>'', [0x20AC], [0xA3]}"
  by (auto simp: special_chars_def spec_symbol_set_def ascii_punctuation_def)

text \<open>
  C6, amended: for every token string other than the apostrophe, the euro sign and the pound
  sign, \<^verbatim>\<open>_is_start_piece_sp\<close> returns true if and only if the token begins with the
  word-boundary marker, or begins with \<^verbatim>\<open><\<close>, or is one of the ASCII punctuation
  characters other than the apostrophe, \<^verbatim>\<open>=\<close> and the greater-than sign.
\<close>

theorem is_start_piece_sp_classifies:
  assumes "piece \<notin> {[0x27], [0x20AC], [0xA3]}"
  shows "is_start_piece_sp piece \<longleftrightarrow>
           startswith piece word_marker \<or> startswith piece (str ''<'')
           \<or> piece \<in> spec_symbol_set - {[0x27], str ''='', str ''>'', [0x20AC], [0xA3]}"
proof -
  have "piece = str ''<'' \<Longrightarrow> startswith piece (str ''<'')"
    by (simp add: startswith_def)
  then show ?thesis
    unfolding is_start_piece_sp_def special_pieces_Str symbol_sets by auto
qed

theorem is_start_piece_sp_classifies_witness:
  "str ''!'' \<notin> {[0x27], [0x20AC], [0xA3]} \<and> is_start_piece_sp (str ''!'')
   \<and> str ''='' \<notin> {[0x27], [0x20AC], [0xA3]} \<and> \<not> is_start_piece_sp (str ''='')"
proof -
  have a: "str ''!'' \<notin> {[0x27], [0x20AC], [0xA3::nat]}" by simp
  have b: "str ''='' \<notin> {[0x27], [0x20AC], [0xA3::nat]}" by simp
  show ?thesis
    using a b is_start_piece_sp_classifies [OF a] is_start_piece_sp_classifies [OF b]
    by (simp add: startswith_def word_marker_def spec_symbol_set_def ascii_punctuation_def)
qed

section \<open>The candidate groups\<close>

lemma concat_cand_step:
  "concat (cand_step tk cand (i, t)) = concat cand @ (if is_cls_or_sep tk t then [] else [i])"
proof (cases "cand = []")
  case True
  then show ?thesis by simp
next
  case False
  then have "concat cand = concat (butlast cand) @ last cand"
    by (metis append_butlast_last_id concat.simps(1,2) concat_append append_Nil2)
  then show ?thesis by simp
qed

lemma cand_step_no_empty:
  "[] \<notin> set cand \<Longrightarrow> [] \<notin> set (cand_step tk cand (i, t))"
  by (auto dest: in_set_butlastD)

lemma concat_foldl_cand_step:
  "concat (foldl (cand_step tk) cand (enumerate n toks)) =
     concat cand @ map fst (filter (\<lambda>(i, t). \<not> is_cls_or_sep tk t) (enumerate n toks))"
proof (induction toks arbitrary: cand n)
  case Nil
  then show ?case by simp
next
  case (Cons t toks)
  show ?case
    by (simp only: enumerate_simps foldl_Cons Cons.IH concat_cand_step) simp
qed

lemma foldl_cand_step_no_empty:
  "[] \<notin> set cand \<Longrightarrow> [] \<notin> set (foldl (cand_step tk) cand (enumerate n toks))"
proof (induction toks arbitrary: cand n)
  case Nil
  then show ?case by simp
next
  case (Cons t toks)
  from Cons.prems have "[] \<notin> set (cand_step tk cand (n, t))"
    by (rule cand_step_no_empty)
  then show ?case
    by (simp only: enumerate_simps foldl_Cons Cons.IH not_False_eq_True)
qed

lemma filter_enumerate_nth:
  "map fst (filter (\<lambda>(i, t). P t) (enumerate 0 xs)) = filter (\<lambda>i. P (xs ! i)) [0..<length xs]"
proof (induction xs rule: rev_induct)
  case Nil
  then show ?case by simp
next
  case (snoc x xs)
  have "filter (\<lambda>i. P ((xs @ [x]) ! i)) [0..<length xs] = filter (\<lambda>i. P (xs ! i)) [0..<length xs]"
    by (rule filter_cong) (simp_all add: nth_append)
  with snoc show ?case
    by (simp add: enumerate_append_eq)
qed

lemma concat_cand_indexes:
  "concat (cand_indexes tk toks) = filter (\<lambda>i. \<not> is_cls_or_sep tk (toks ! i)) [0..<length toks]"
  unfolding cand_indexes_def concat_foldl_cand_step
  using filter_enumerate_nth [of "\<lambda>t. \<not> is_cls_or_sep tk t" toks] by simp

lemma cand_indexes_no_empty: "[] \<notin> set (cand_indexes tk toks)"
  unfolding cand_indexes_def by (rule foldl_cand_step_no_empty) simp

lemma distinct_concat_unique:
  assumes "distinct (concat xss)" "k < length xss" "k' < length xss"
    "x \<in> set (xss ! k)" "x \<in> set (xss ! k')"
  shows "k = k'"
  using assms
proof (induction xss arbitrary: k k')
  case Nil
  then show ?case by simp
next
  case (Cons xs xss)
  show ?case
  proof (cases k)
    case 0
    show ?thesis
    proof (cases k')
      case 0
      with \<open>k = 0\<close> show ?thesis by simp
    next
      case (Suc m')
      with Cons.prems \<open>k = 0\<close> have "x \<in> set xs" "x \<in> set (xss ! m')" "xss ! m' \<in> set xss"
        by simp_all
      with Cons.prems(1) have False by auto
      then show ?thesis ..
    qed
  next
    case (Suc m)
    show ?thesis
    proof (cases k')
      case 0
      with Cons.prems \<open>k = Suc m\<close> have "x \<in> set xs" "x \<in> set (xss ! m)" "xss ! m \<in> set xss"
        by simp_all
      with Cons.prems(1) have False by auto
      then show ?thesis ..
    next
      case (Suc m')
      with Cons.prems \<open>k = Suc m\<close> Cons.IH [of m m'] show ?thesis by simp
    qed
  qed
qed

text \<open>
  C1: the groups of \<^verbatim>\<open>_whole_word_mask\<close>, read left to right, are exactly the positions
  whose token is neither \<^verbatim>\<open>cls_token\<close> nor \<^verbatim>\<open>sep_token\<close>, in increasing order and
  without repetition; no group is empty, and a position is in exactly one group if it is
  such a position and in no group otherwise.
\<close>

theorem cand_indexes_partition:
  "concat (cand_indexes tk toks) = filter (\<lambda>i. \<not> is_cls_or_sep tk (toks ! i)) [0..<length toks]
   \<and> [] \<notin> set (cand_indexes tk toks)
   \<and> sorted (concat (cand_indexes tk toks))
   \<and> distinct (concat (cand_indexes tk toks))
   \<and> (\<forall>i. (i < length toks \<and> \<not> is_cls_or_sep tk (toks ! i)) =
           (\<exists>!k. k < length (cand_indexes tk toks) \<and> i \<in> set (cand_indexes tk toks ! k)))"
proof -
  let ?c = "cand_indexes tk toks"
  have eq: "concat ?c = filter (\<lambda>i. \<not> is_cls_or_sep tk (toks ! i)) [0..<length toks]"
    by (rule concat_cand_indexes)
  have d: "distinct (concat ?c)"
    unfolding eq by simp
  have s: "sorted (concat ?c)"
    unfolding eq by (rule sorted_wrt_filter) simp
  have u: "(i < length toks \<and> \<not> is_cls_or_sep tk (toks ! i)) =
           (\<exists>!k. k < length ?c \<and> i \<in> set (?c ! k))" for i
  proof -
    have "(i < length toks \<and> \<not> is_cls_or_sep tk (toks ! i)) = (i \<in> set (concat ?c))"
      unfolding eq by auto
    also have "\<dots> = (\<exists>k. k < length ?c \<and> i \<in> set (?c ! k))"
      unfolding set_concat by (metis UN_iff in_set_conv_nth)
    also have "\<dots> = (\<exists>!k. k < length ?c \<and> i \<in> set (?c ! k))"
      using distinct_concat_unique [OF d] by blast
    finally show ?thesis .
  qed
  from eq cand_indexes_no_empty d s u show ?thesis by blast
qed

theorem cand_indexes_partition_witness:
  "cand_indexes ex_tokenizer ex_tokens = [[1], [2, 3]]
   \<and> concat (cand_indexes ex_tokenizer ex_tokens) = [1, 2, 3]
   \<and> is_cls_or_sep ex_tokenizer (ex_tokens ! 0) \<and> is_cls_or_sep ex_tokenizer (ex_tokens ! 4)"
proof -
  have c: "cand_indexes ex_tokenizer ex_tokens = [[1], [2, 3]]"
    by (simp add: cand_indexes_def ex_tokens_def ex_token_def ex_tokenizer_def is_cls_or_sep_def
        is_start_piece_sp_def startswith_def word_marker_def special_pieces_def
        special_chars_def enumerate_eq_zip)
  have e: "is_cls_or_sep ex_tokenizer (ex_tokens ! 0) \<and> is_cls_or_sep ex_tokenizer (ex_tokens ! 4)"
    by (simp add: ex_tokens_def ex_token_def ex_tokenizer_def is_cls_or_sep_def)
  show ?thesis
    using cand_indexes_partition [of ex_tokenizer ex_tokens] c e by simp
qed

section \<open>The masking budget\<close>

lemma ones_card: "ones ml = card (ones_set ml)"
  unfolding ones_def ones_set_def by (rule length_filter_conv_card)

lemma finite_ones_set: "finite (ones_set ml)"
  unfolding ones_set_def by simp

lemma ones_set_update:
  "i < length ml \<Longrightarrow> ones_set (ml[i := 1]) = insert i (ones_set ml)"
  unfolding ones_set_def by (auto simp: nth_list_update)

lemma mark_Inr:
  "\<forall>i \<in> set g. i < length ml \<Longrightarrow>
   \<exists>ml'. mark g (cov, ml) = Inr (set g \<union> cov, ml') \<and> length ml' = length ml
         \<and> ones_set ml' = set g \<union> ones_set ml"
proof (induction g arbitrary: cov ml)
  case Nil
  then show ?case by simp
next
  case (Cons i g)
  from Cons.prems have i: "i < length ml" and g: "\<forall>j \<in> set g. j < length (ml[i := 1])"
    by simp_all
  from Cons.IH [OF g, of "insert i cov"] obtain ml' where
    "mark g (insert i cov, ml[i := 1]) = Inr (set g \<union> insert i cov, ml')"
    "length ml' = length (ml[i := 1])"
    "ones_set ml' = set g \<union> ones_set (ml[i := 1])"
    by blast
  with i show ?case
    by (simp add: ones_set_update)
qed

lemma select_Inr:
  assumes "\<forall>g \<in> set gs. \<forall>i \<in> set g. i < length ml \<and> i \<in> S"
    and "cov = ones_set ml" and "int (card cov) \<le> max 0 n" and "cov \<subseteq> S"
  shows "\<exists>cov' ml'. select n gs (cov, ml) = Inr (cov', ml') \<and> length ml' = length ml
           \<and> cov' = ones_set ml' \<and> int (card cov') \<le> max 0 n \<and> cov' \<subseteq> S"
  using assms
proof (induction gs arbitrary: cov ml)
  case Nil
  then show ?case by simp
next
  case (Cons g gs)
  have rest: "\<forall>g \<in> set gs. \<forall>i \<in> set g. i < length ml \<and> i \<in> S"
    using Cons.prems(1) by simp
  have skip: "\<exists>cov' ml'. select n gs (cov, ml) = Inr (cov', ml') \<and> length ml' = length ml
           \<and> cov' = ones_set ml' \<and> int (card cov') \<le> max 0 n \<and> cov' \<subseteq> S"
    using Cons.IH [OF rest Cons.prems(2,3,4)] .
  show ?case
  proof (cases "int (card cov) \<ge> n")
    case True
    with Cons.prems show ?thesis by simp
  next
    case brk: False
    show ?thesis
    proof (cases "int (card cov) + int (length g) > n \<or> (\<exists>index \<in> set g. index \<in> cov)")
      case True
      with brk skip show ?thesis by auto
    next
      case False
      then have fit: "int (card cov) + int (length g) \<le> n" and dis: "\<forall>i \<in> set g. i \<notin> cov"
        by auto
      from Cons.prems(1) have gb: "\<forall>i \<in> set g. i < length ml" and gS: "set g \<subseteq> S"
        by auto
      from mark_Inr [OF gb, of cov] obtain ml1 where
        m: "mark g (cov, ml) = Inr (set g \<union> cov, ml1)" and l: "length ml1 = length ml"
        and o: "ones_set ml1 = set g \<union> ones_set ml"
        by blast
      have fin: "finite cov" using Cons.prems(2) by (simp add: finite_ones_set)
      have "card (set g \<union> cov) \<le> card (set g) + card cov"
        by (rule card_Un_le)
      also have "\<dots> \<le> length g + card cov"
        by (simp add: card_length)
      finally have c: "int (card (set g \<union> cov)) \<le> max 0 n"
        using fit by linarith
      have rest1: "\<forall>g \<in> set gs. \<forall>i \<in> set g. i < length ml1 \<and> i \<in> S"
        using rest l by simp
      have "set g \<union> cov = ones_set ml1" using o Cons.prems(2) by simp
      from Cons.IH [OF rest1 this c] gS Cons.prems(4) obtain cov' ml' where
        "select n gs (set g \<union> cov, ml1) = Inr (cov', ml')" "length ml' = length ml1"
        "cov' = ones_set ml'" "int (card cov') \<le> max 0 n" "cov' \<subseteq> S"
        by auto
      with brk False m l show ?thesis by simp
    qed
  qed
qed

lemma card_non_special:
  "card (set (filter (\<lambda>i. P (xs ! i)) [0..<length xs])) = length (filter P xs)"
proof -
  have "card (set (filter (\<lambda>i. P (xs ! i)) [0..<length xs])) = card {i. i < length xs \<and> P (xs ! i)}"
    by (rule arg_cong [where f = card]) auto
  then show ?thesis by (simp add: length_filter_conv_card)
qed

text \<open>
  The bounds for every integer \<open>max_predictions\<close>: a negative cap makes the budget
  negative, the loop breaks at the first group and nothing is masked.
\<close>

lemma whole_word_mask_bounds:
  assumes "mset (shuffle (cand_indexes (tokenizer c) toks)) = mset (cand_indexes (tokenizer c) toks)"
    and "round_scaled c (length toks) = Inr r"
  shows "\<exists>v. whole_word_mask c shuffle max_predictions toks = Inr v \<and> length v = length toks
           \<and> int (ones v) \<le> max 0 (min max_predictions (max 1 r))
           \<and> ones v \<le> length (filter (\<lambda>t. \<not> is_cls_or_sep (tokenizer c) t) toks)"
proof -
  let ?tk = "tokenizer c"
  let ?S = "set (concat (cand_indexes ?tk toks))"
  let ?ml = "replicate (length toks) (0::int)"
  have S: "?S = set (filter (\<lambda>i. \<not> is_cls_or_sep ?tk (toks ! i)) [0..<length toks])"
    by (simp only: concat_cand_indexes)
  have "set (shuffle (cand_indexes ?tk toks)) = set (cand_indexes ?tk toks)"
    using assms(1) by (rule mset_eq_setD)
  moreover have "i \<in> ?S" if "g \<in> set (cand_indexes ?tk toks)" "i \<in> set g" for g i
    using that by auto
  moreover have "i < length toks" if "i \<in> ?S" for i
    using that unfolding S by simp
  ultimately have groups:
    "\<forall>g \<in> set (shuffle (cand_indexes ?tk toks)). \<forall>i \<in> set g. i < length ?ml \<and> i \<in> ?S"
    by (metis length_replicate)
  have e: "{} = ones_set ?ml"
    by (auto simp: ones_set_def)
  from select_Inr [OF groups e, of "num_to_predict max_predictions r"]
  obtain cov' ml' where
    sel: "select (num_to_predict max_predictions r) (shuffle (cand_indexes ?tk toks)) ({}, ?ml)
            = Inr (cov', ml')"
    and len: "length ml' = length ?ml" and cov: "cov' = ones_set ml'"
    and bud: "int (card cov') \<le> max 0 (num_to_predict max_predictions r)" and sub: "cov' \<subseteq> ?S"
    by auto
  have w: "whole_word_mask c shuffle max_predictions toks = Inr ml'"
    by (simp add: whole_word_mask_def assms(2) sel)
  have "card cov' \<le> card ?S"
    using sub by (simp add: card_mono)
  also have "\<dots> = length (filter (\<lambda>t. \<not> is_cls_or_sep ?tk t) toks)"
    unfolding S by (rule card_non_special)
  finally have "ones ml' \<le> length (filter (\<lambda>t. \<not> is_cls_or_sep ?tk t) toks)"
    by (simp add: ones_card cov)
  with w len bud show ?thesis
    by (simp add: ones_card cov num_to_predict_def)
qed

lemma ex_cand_indexes: "cand_indexes ex_tokenizer ex_tokens = [[1], [2, 3]]"
  by (simp add: cand_indexes_def ex_tokens_def ex_token_def ex_tokenizer_def is_cls_or_sep_def
      is_start_piece_sp_def startswith_def word_marker_def special_pieces_def
      special_chars_def enumerate_eq_zip)

lemma replicate_5: "replicate 5 (0::int) = [0, 0, 0, 0, 0]"
  by (simp add: eval_nat_numeral)

lemma ex_round_scaled: "round_scaled ex_collator (length ex_tokens) = Inr 1"
  by (simp add: ex_collator_def round_half_even_def ex_tokens_def)

text \<open>
  C2: for every token sequence of length N, every value \<open>r\<close> of
  \<^verbatim>\<open>round(N * mlm_probability)\<close>, every cap \<open>max_predictions\<close> (a count, so not
  negative) and every outcome of the shuffle (any permutation of the groups),
  \<^verbatim>\<open>_whole_word_mask\<close> returns a vector of length N whose number of ones is at most
  \<open>min max_predictions (max 1 r)\<close> and at most the number of positions whose token is
  neither \<^verbatim>\<open>cls_token\<close> nor \<^verbatim>\<open>sep_token\<close>.
\<close>

theorem whole_word_mask_budget:
  assumes "mset (shuffle (cand_indexes (tokenizer c) toks)) = mset (cand_indexes (tokenizer c) toks)"
    and "round_scaled c (length toks) = Inr r"
    and "0 \<le> max_predictions"
  shows "\<exists>v. whole_word_mask c shuffle max_predictions toks = Inr v \<and> length v = length toks
           \<and> int (ones v) \<le> min max_predictions (max 1 r)
           \<and> ones v \<le> length (filter (\<lambda>t. \<not> is_cls_or_sep (tokenizer c) t) toks)"
proof -
  have "max 0 (min max_predictions (max 1 r)) = min max_predictions (max 1 r)"
    using assms(3) by simp
  with whole_word_mask_bounds [of shuffle c toks r max_predictions, OF assms(1,2)]
  show ?thesis
    by simp
qed

theorem whole_word_mask_budget_witness:
  "mset (rev (cand_indexes (tokenizer ex_collator) ex_tokens))
     = mset (cand_indexes (tokenizer ex_collator) ex_tokens)
   \<and> round_scaled ex_collator (length ex_tokens) = Inr 1
   \<and> (0::int) \<le> 512
   \<and> whole_word_mask ex_collator rev 512 ex_tokens = Inr [0, 1, 0, 0, 0]
   \<and> int (ones [0, 1, 0, 0, 0]) \<le> min 512 (max 1 1)
   \<and> ones [0, 1, 0, 0, 0] \<le> length (filter (\<lambda>t. \<not> is_cls_or_sep (tokenizer ex_collator) t) ex_tokens)"
proof -
  have p: "mset (rev (cand_indexes (tokenizer ex_collator) ex_tokens))
     = mset (cand_indexes (tokenizer ex_collator) ex_tokens)"
    by simp
  have t: "tokenizer ex_collator = ex_tokenizer" "length ex_tokens = 5"
    by (simp_all add: ex_collator_def ex_tokens_def)
  have w: "whole_word_mask ex_collator rev 512 ex_tokens = Inr [0, 1, 0, 0, 0]"
    using t ex_cand_indexes ex_round_scaled
    by (simp add: whole_word_mask_def num_to_predict_def replicate_5)
  have n: "(0::int) \<le> 512" by simp
  show ?thesis
    using whole_word_mask_budget [of rev ex_collator ex_tokens 1 512, OF p ex_round_scaled n]
      p ex_round_scaled w
    by simp
qed

section \<open>The corruption policy\<close>

lemma same_shape_length: "same_shape a b \<Longrightarrow> length a = length b"
  unfolding same_shape_def by (rule map_eq_imp_length_eq)

lemma same_shape_row: "same_shape a b \<Longrightarrow> i < length a \<Longrightarrow> length (a ! i) = length (b ! i)"
proof -
  assume s: "same_shape a b" and i: "i < length a"
  then have "i < length b" by (simp add: same_shape_length)
  with i have "map length a ! i = length (a ! i)" "map length b ! i = length (b ! i)"
    by simp_all
  with s show ?thesis by (simp add: same_shape_def)
qed

lemma same_shape_sym: "same_shape a b \<Longrightarrow> same_shape b a"
  by (simp add: same_shape_def)

lemma same_shape_trans: "same_shape a b \<Longrightarrow> same_shape b c \<Longrightarrow> same_shape a c"
  by (simp add: same_shape_def)

lemma same_shape_tmap: "same_shape (tmap f a) a"
  by (simp add: same_shape_def tmap_def comp_def)

lemma same_shape_tmap2: "same_shape a b \<Longrightarrow> same_shape (tmap2 f a b) a"
proof -
  assume s: "same_shape a b"
  have "map length (tmap2 f a b) = map length a"
  proof (rule nth_equalityI)
    show "length (map length (tmap2 f a b)) = length (map length a)"
      using same_shape_length [OF s] by (simp add: tmap2_def)
  next
    fix i assume "i < length (map length (tmap2 f a b))"
    then have i: "i < length a" "i < length b"
      using same_shape_length [OF s] by (simp_all add: tmap2_def)
    then show "map length (tmap2 f a b) ! i = map length a ! i"
      using same_shape_row [OF s i(1)] by (simp add: tmap2_def)
  qed
  then show ?thesis by (simp add: same_shape_def)
qed

lemma same_shape_drawn_like: "same_shape (drawn_like a f) a"
  unfolding same_shape_def drawn_like_def
  by (rule nth_equalityI) simp_all

lemma tmap_nth: "i < length a \<Longrightarrow> j < length (a ! i) \<Longrightarrow> tmap f a ! i ! j = f (a ! i ! j)"
  by (simp add: tmap_def)

lemma tmap2_nth:
  "same_shape a b \<Longrightarrow> i < length a \<Longrightarrow> j < length (a ! i) \<Longrightarrow>
   tmap2 f a b ! i ! j = f (a ! i ! j) (b ! i ! j)"
  using same_shape_length [of a b] same_shape_row [of a b i]
  by (simp add: tmap2_def)

lemma drawn_like_nth:
  "i < length a \<Longrightarrow> j < length (a ! i) \<Longrightarrow> drawn_like a f ! i ! j = f i j"
  by (simp add: drawn_like_def)

lemma assign_where_nth:
  assumes "same_shape inputs idx" "same_shape inputs vals" "i < length inputs" "j < length (inputs ! i)"
  shows "assign_where inputs idx vals ! i ! j = (if idx ! i ! j then vals ! i ! j else inputs ! i ! j)"
proof -
  have p: "same_shape (tmap2 Pair inputs vals) inputs"
    using assms(2) by (rule same_shape_tmap2)
  then have q: "same_shape (tmap2 Pair inputs vals) idx"
    using assms(1) by (rule same_shape_trans)
  have i: "i < length (tmap2 Pair inputs vals)" "j < length (tmap2 Pair inputs vals ! i)"
    using same_shape_length [OF p] same_shape_row [OF p, of i] assms(3,4) by simp_all
  show ?thesis
    unfolding assign_where_def
    by (simp add: tmap2_nth [OF q i] tmap2_nth [OF assms(2,3,4)])
qed

lemma shape_tmap: "map length (tmap f a) = map length a"
  by (simp add: tmap_def comp_def)

lemma shape_tmap2: "map length a = map length b \<Longrightarrow> map length (tmap2 f a b) = map length a"
  using same_shape_tmap2 [of a b f] by (simp add: same_shape_def)

lemma shape_drawn_like: "map length (drawn_like a f) = map length a"
  using same_shape_drawn_like [of a f] by (simp add: same_shape_def)

lemma shape_assign_where:
  assumes "map length inputs = map length idx" and "map length inputs = map length vals"
  shows "map length (assign_where inputs idx vals) = map length inputs"
proof -
  have p: "map length (tmap2 Pair inputs vals) = map length inputs"
    using assms(2) by (rule shape_tmap2)
  then have "map length (tmap2 Pair inputs vals) = map length idx"
    using assms(1) by simp
  then have "map length (assign_where inputs idx vals) = map length (tmap2 Pair inputs vals)"
    unfolding assign_where_def by (rule shape_tmap2)
  with p show ?thesis by simp
qed

lemma mask_tokens_returns:
  assumes "mask_tokens c g inputs ml stm = (Inr (inputs', labels), (io, mo))"
  shows "mlm c" and "same_shape ml (special_mask c inputs stm)"
    and "same_shape inputs (masked_indices (masked_fill ml (special_mask c inputs stm)))"
    and "0 < vocab_len (tokenizer c)"
    and "mo = masked_fill ml (special_mask c inputs stm)"
    and "labels = ignore_unmasked inputs (masked_indices mo)"
    and "io = inputs'"
    and "inputs' =
          assign_where
            (assign_where inputs (indices_replaced g labels (masked_indices mo))
               (tmap (\<lambda>_. mask_token_id (tokenizer c)) inputs))
            (indices_random g labels (masked_indices mo)
               (indices_replaced g labels (masked_indices mo)))
            (drawn_like labels (random_words g))"
proof -
  note a = assms [unfolded mask_tokens_def Let_def]
  show m: "mlm c" using a by (simp split: if_splits)
  show s1: "same_shape ml (special_mask c inputs stm)"
    using a m by (simp split: if_splits)
  show s2: "same_shape inputs (masked_indices (masked_fill ml (special_mask c inputs stm)))"
    using a m s1 by (simp split: if_splits)
  show v: "0 < vocab_len (tokenizer c)"
    using a m s1 s2 by (simp split: if_splits)
  have v': "\<not> vocab_len (tokenizer c) \<le> 0" using v by simp
  define MO where "MO = masked_fill ml (special_mask c inputs stm)"
  define LB where "LB = ignore_unmasked inputs (masked_indices MO)"
  define IN2 where "IN2 =
          assign_where
            (assign_where inputs (indices_replaced g LB (masked_indices MO))
               (tmap (\<lambda>_. mask_token_id (tokenizer c)) inputs))
            (indices_random g LB (masked_indices MO)
               (indices_replaced g LB (masked_indices MO)))
            (drawn_like LB (random_words g))"
  have "mask_tokens c g inputs ml stm = (Inr (IN2, LB), (IN2, MO))"
    unfolding IN2_def LB_def MO_def using m s1 s2 v' by (simp add: mask_tokens_def Let_def)
  with assms have e: "inputs' = IN2" "labels = LB" "io = IN2" "mo = MO"
    by auto
  show "mo = masked_fill ml (special_mask c inputs stm)"
    unfolding e(4) MO_def by (rule refl)
  show "labels = ignore_unmasked inputs (masked_indices mo)"
    unfolding e(2) e(4) LB_def by (rule refl)
  show "io = inputs'" unfolding e(1) by (rule e(3))
  show "inputs' =
          assign_where
            (assign_where inputs (indices_replaced g labels (masked_indices mo))
               (tmap (\<lambda>_. mask_token_id (tokenizer c)) inputs))
            (indices_random g labels (masked_indices mo)
               (indices_replaced g labels (masked_indices mo)))
            (drawn_like labels (random_words g))"
    unfolding e(1) e(2) e(4) IN2_def by (rule refl)
qed



lemma mask_tokens_shapes:
  assumes "mask_tokens c g inputs ml stm = (Inr (inputs', labels), (io, mo))"
  shows "map length ml = map length (special_mask c inputs stm)"
    and "map length mo = map length inputs"
    and "map length (masked_indices mo) = map length inputs"
    and "map length ml = map length inputs"
    and "map length labels = map length inputs"
    and "map length (indices_replaced g labels (masked_indices mo)) = map length inputs"
    and "map length (indices_random g labels (masked_indices mo)
           (indices_replaced g labels (masked_indices mo))) = map length inputs"
    and "map length inputs' = map length inputs"
proof -
  note r = mask_tokens_returns [OF assms]
  let ?masked = "masked_indices mo"
  let ?rep = "indices_replaced g labels ?masked"
  let ?rnd = "indices_random g labels ?masked ?rep"
  show a: "map length ml = map length (special_mask c inputs stm)"
    using r(2) by (simp add: same_shape_def)
  have b: "map length mo = map length ml"
    unfolding r(5) masked_fill_def using a by (rule shape_tmap2)
  have m: "map length ?masked = map length mo"
    unfolding masked_indices_def by (rule shape_tmap)
  have im: "map length inputs = map length ?masked"
    using r(3) unfolding r(5) by (simp add: same_shape_def)
  show mo: "map length mo = map length inputs"
    using im m by simp
  show ms: "map length ?masked = map length inputs"
    using im by simp
  show "map length ml = map length inputs"
    using b mo by simp
  show e: "map length labels = map length inputs"
    unfolding r(6) ignore_unmasked_def using im by (rule shape_tmap2)
  have dl: "map length (drawn_like labels f) = map length ?masked" for f :: "nat \<Rightarrow> nat \<Rightarrow> bool"
    using e ms by (simp add: shape_drawn_like)
  have "map length ?rep = map length (drawn_like labels (bernoulli_replace g))"
    unfolding indices_replaced_def using dl by (rule shape_tmap2)
  then show rep: "map length ?rep = map length inputs"
    using e by (simp add: shape_drawn_like)
  let ?bm = "tmap2 (\<lambda>b m. b \<and> m) (drawn_like labels (bernoulli_random g)) ?masked"
  have bm: "map length ?bm = map length (drawn_like labels (bernoulli_random g))"
    using dl by (rule shape_tmap2)
  then have bm': "map length ?bm = map length ?rep"
    using rep e by (simp add: shape_drawn_like)
  have "map length ?rnd = map length ?bm"
    unfolding indices_random_def using bm' by (rule shape_tmap2)
  then show rnd: "map length ?rnd = map length inputs"
    using bm e by (simp add: shape_drawn_like)
  let ?in1 = "assign_where inputs ?rep (tmap (\<lambda>_. mask_token_id (tokenizer c)) inputs)"
  have i1: "map length ?in1 = map length inputs"
    by (rule shape_assign_where) (simp_all add: rep shape_tmap)
  have "map length (assign_where ?in1 ?rnd (drawn_like labels (random_words g))) = map length ?in1"
    by (rule shape_assign_where) (simp_all add: i1 rnd e shape_drawn_like)
  with i1 have "map length (assign_where ?in1 ?rnd (drawn_like labels (random_words g)))
      = map length inputs"
    by simp
  then show "map length inputs' = map length inputs"
    by (subst r(8))
qed

lemma mask_tokens_total:
  assumes "mlm c" and "same_shape ml (special_mask c inputs stm)" and "same_shape inputs ml"
    and "0 < vocab_len (tokenizer c)"
  shows "\<exists>inputs' labels mo. mask_tokens c g inputs ml stm = (Inr (inputs', labels), (inputs', mo))"
proof -
  have a: "map length ml = map length (special_mask c inputs stm)"
    using assms(2) by (simp add: same_shape_def)
  have "map length (masked_fill ml (special_mask c inputs stm)) = map length ml"
    unfolding masked_fill_def using a by (rule shape_tmap2)
  then have "map length (masked_indices (masked_fill ml (special_mask c inputs stm))) = map length ml"
    unfolding masked_indices_def by (simp add: shape_tmap)
  then have "same_shape inputs (masked_indices (masked_fill ml (special_mask c inputs stm)))"
    using assms(3) by (simp add: same_shape_def)
  with assms show ?thesis
    by (simp add: mask_tokens_def Let_def)
qed

lemma in_range:
  assumes "map length a = map length b" and "i < length b" and "j < length (b ! i)"
  shows "i < length a" and "j < length (a ! i)"
proof -
  have s: "same_shape a b" using assms(1) by (simp add: same_shape_def)
  show i: "i < length a" using same_shape_length [OF s] assms(2) by simp
  show "j < length (a ! i)" using same_shape_row [OF s i] assms(3) by simp
qed

lemma mask_tokens_pointwise:
  assumes r: "mask_tokens c g inputs ml stm = (Inr (inputs', labels), (io, mo))"
    and i: "i < length inputs" and j: "j < length (inputs ! i)"
  shows "mo ! i ! j = (if special_mask c inputs stm ! i ! j then 0 else ml ! i ! j)"
    and "masked_indices mo ! i ! j = (mo ! i ! j \<noteq> 0)"
    and "labels ! i ! j = (if mo ! i ! j \<noteq> 0 then inputs ! i ! j else - 100)"
    and "indices_replaced g labels (masked_indices mo) ! i ! j
           = (bernoulli_replace g i j \<and> mo ! i ! j \<noteq> 0)"
    and "indices_random g labels (masked_indices mo)
             (indices_replaced g labels (masked_indices mo)) ! i ! j
           = (bernoulli_random g i j \<and> mo ! i ! j \<noteq> 0
              \<and> \<not> indices_replaced g labels (masked_indices mo) ! i ! j)"
    and "inputs' ! i ! j =
           (if indices_replaced g labels (masked_indices mo) ! i ! j
            then mask_token_id (tokenizer c)
            else if indices_random g labels (masked_indices mo)
                      (indices_replaced g labels (masked_indices mo)) ! i ! j
            then random_words g i j
            else inputs ! i ! j)"
proof -
  note e = mask_tokens_returns [OF r]
  note s = mask_tokens_shapes [OF r]
  let ?masked = "masked_indices mo"
  let ?rep = "indices_replaced g labels ?masked"
  let ?rnd = "indices_random g labels ?masked ?rep"
  note ml = in_range [OF s(4) i j]
  note mo = in_range [OF s(2) i j]
  note lb = in_range [OF s(5) i j]
  show A: "mo ! i ! j = (if special_mask c inputs stm ! i ! j then 0 else ml ! i ! j)"
    unfolding e(5) masked_fill_def by (simp add: tmap2_nth [OF e(2) ml])
  show B: "?masked ! i ! j = (mo ! i ! j \<noteq> 0)"
    unfolding masked_indices_def by (simp add: tmap_nth [OF mo])
  have im: "same_shape inputs ?masked"
    using s(3) by (simp add: same_shape_def)
  have "labels ! i ! j = (if \<not> ?masked ! i ! j then - 100 else inputs ! i ! j)"
    by (subst e(6)) (simp add: ignore_unmasked_def tmap2_nth [OF im i j])
  with B show "labels ! i ! j = (if mo ! i ! j \<noteq> 0 then inputs ! i ! j else - 100)"
    by simp
  have dm: "same_shape (drawn_like labels f) ?masked" for f :: "nat \<Rightarrow> nat \<Rightarrow> bool"
    using s(3) s(5) by (simp add: same_shape_def shape_drawn_like)
  have dli: "map length (drawn_like labels f) = map length inputs" for f :: "nat \<Rightarrow> nat \<Rightarrow> bool"
    using s(5) by (simp add: shape_drawn_like)
  note dl = in_range [OF dli i j]
  show C: "?rep ! i ! j = (bernoulli_replace g i j \<and> mo ! i ! j \<noteq> 0)"
    unfolding indices_replaced_def
    by (simp add: tmap2_nth [OF dm dl] drawn_like_nth [OF lb] B)
  let ?bm = "tmap2 (\<lambda>b m. b \<and> m) (drawn_like labels (bernoulli_random g)) ?masked"
  have dr: "map length (drawn_like labels (bernoulli_random g)) = map length ?masked"
    using dli [of "bernoulli_random g"] s(3) by simp
  have bms: "map length ?bm = map length inputs"
    using shape_tmap2 [OF dr, of "\<lambda>b m. b \<and> m"] dli [of "bernoulli_random g"] by simp
  have bm: "same_shape ?bm ?rep"
    using bms s(6) by (simp add: same_shape_def)
  note bml = in_range [OF bms i j]
  show D: "?rnd ! i ! j = (bernoulli_random g i j \<and> mo ! i ! j \<noteq> 0 \<and> \<not> ?rep ! i ! j)"
    unfolding indices_random_def
    by (simp add: tmap2_nth [OF bm bml] tmap2_nth [OF dm dl] drawn_like_nth [OF lb] B)
  let ?in1 = "assign_where inputs ?rep (tmap (\<lambda>_. mask_token_id (tokenizer c)) inputs)"
  have t: "same_shape inputs (tmap (\<lambda>_. mask_token_id (tokenizer c)) inputs)"
    by (simp add: same_shape_def shape_tmap)
  have rs: "same_shape inputs ?rep"
    using s(6) by (simp add: same_shape_def)
  have in1: "?in1 ! i ! j = (if ?rep ! i ! j then mask_token_id (tokenizer c) else inputs ! i ! j)"
    by (simp add: assign_where_nth [OF rs t i j] tmap_nth [OF i j])
  have s1: "map length ?in1 = map length inputs"
    by (rule shape_assign_where) (simp_all add: s(6) shape_tmap)
  note i1 = in_range [OF s1 i j]
  have rn: "same_shape ?in1 ?rnd"
    using s1 s(7) by (simp add: same_shape_def)
  have rw: "same_shape ?in1 (drawn_like labels (random_words g))"
    using s1 s(5) by (simp add: same_shape_def shape_drawn_like)
  show "inputs' ! i ! j =
           (if ?rep ! i ! j then mask_token_id (tokenizer c)
            else if ?rnd ! i ! j then random_words g i j else inputs ! i ! j)"
    by (subst e(8)) (simp add: assign_where_nth [OF rn rw i1] in1 drawn_like_nth [OF lb] D)
qed

lemma tensor_eqI:
  assumes "map length a = map length b"
    and "\<And>i j. i < length b \<Longrightarrow> j < length (b ! i) \<Longrightarrow> a ! i ! j = b ! i ! j"
  shows "a = b"
proof (rule nth_equalityI)
  show l: "length a = length b"
    using assms(1) by (rule map_eq_imp_length_eq)
  fix i assume i: "i < length a"
  then have ib: "i < length b" using l by simp
  have "same_shape a b"
    using assms(1) by (simp add: same_shape_def)
  then have li: "length (a ! i) = length (b ! i)"
    using i by (rule same_shape_row)
  show "a ! i = b ! i"
    by (rule nth_equalityI) (simp_all add: li assms(2) [OF ib])
qed

lemma ex_run_none:
  "mask_tokens ex_collator ex_draws [[2, 5, 6, 7, 3, 0]] [[0, 1, 1, 1, 0, 1]] None =
     (Inr ([[2, 7, 4, 7, 3, 0]], [[- 100, 5, 6, 7, - 100, - 100]]),
      ([[2, 7, 4, 7, 3, 0]], [[0, 1, 1, 1, 0, 0]]))"
  by code_simp

lemma ex_run_some:
  "mask_tokens ex_collator ex_draws [[2, 5, 6, 7, 3, 0]] [[0, 1, 1, 1, 0, 1]]
      (Some [[1, 0, 0, 0, 1, 0]]) =
     (Inr ([[2, 7, 4, 7, 3, 7]], [[- 100, 5, 6, 7, - 100, 0]]),
      ([[2, 7, 4, 7, 3, 7]], [[0, 1, 1, 1, 0, 1]]))"
  by code_simp

text \<open>
  C3: when \<^verbatim>\<open>mask_tokens\<close> returns, the mask-label tensor holds the mask labels after
  special-token zeroing, and at every position, whose input is a token id and so not the
  sentinel -100, the label is the original input id where that mask label is 1 and -100
  where it is 0; the label is other than -100 exactly when the position is masked after
  special-token zeroing.
\<close>

theorem mask_tokens_labels:
  assumes "mask_tokens c g inputs mask_labels special_tokens_mask
             = (Inr (inputs', labels), (inputs_after, mask_labels_after))"
    and "i < length inputs" and "j < length (inputs ! i)"
    and "inputs ! i ! j \<noteq> - 100"
  shows "mask_labels_after = masked_fill mask_labels (special_mask c inputs special_tokens_mask)
    \<and> map length labels = map length inputs
    \<and> (mask_labels_after ! i ! j = 1 \<longrightarrow> labels ! i ! j = inputs ! i ! j)
    \<and> (mask_labels_after ! i ! j = 0 \<longrightarrow> labels ! i ! j = - 100)
    \<and> (labels ! i ! j \<noteq> - 100) = (masked_indices mask_labels_after ! i ! j)
    \<and> (masked_indices mask_labels_after ! i ! j) = (mask_labels_after ! i ! j \<noteq> 0)"
  using mask_tokens_returns(5) [OF assms(1)] mask_tokens_shapes(5) [OF assms(1)]
    mask_tokens_pointwise(2,3) [OF assms(1,2,3)] assms(4)
  by simp

theorem mask_tokens_labels_witness:
  "mask_tokens ex_collator ex_draws [[2, 5, 6, 7, 3, 0]] [[0, 1, 1, 1, 0, 1]] None =
     (Inr ([[2, 7, 4, 7, 3, 0]], [[- 100, 5, 6, 7, - 100, - 100]]),
      ([[2, 7, 4, 7, 3, 0]], [[0, 1, 1, 1, 0, 0]]))
   \<and> (0::nat) < length [[2, 5, 6, 7, 3, 0 :: int]] \<and> (1::nat) < length ([[2, 5, 6, 7, 3, 0 :: int]] ! 0)
   \<and> [[2, 5, 6, 7, 3, 0 :: int]] ! 0 ! 1 \<noteq> - 100
   \<and> [[0, 1, 1, 1, 0, 0 :: int]] ! 0 ! 1 = 1
   \<and> [[- 100, 5, 6, 7, - 100, - 100 :: int]] ! 0 ! 1 = [[2, 5, 6, 7, 3, 0]] ! 0 ! 1
   \<and> masked_indices [[0, 1, 1, 1, 0, 0]] ! 0 ! 1"
proof -
  have i: "(0::nat) < length [[2, 5, 6, 7, 3, 0 :: int]]" by simp
  have j: "(1::nat) < length ([[2, 5, 6, 7, 3, 0 :: int]] ! 0)" by simp
  have n: "[[2, 5, 6, 7, 3, 0 :: int]] ! 0 ! 1 \<noteq> - 100" by simp
  from mask_tokens_labels [OF ex_run_none i j n]
  have "([[0, 1, 1, 1, 0, 0 :: int]] ! 0 ! 1 = 1
          \<longrightarrow> [[- 100, 5, 6, 7, - 100, - 100 :: int]] ! 0 ! 1 = [[2, 5, 6, 7, 3, 0]] ! 0 ! 1)
        \<and> ([[- 100, 5, 6, 7, - 100, - 100 :: int]] ! 0 ! 1 \<noteq> - 100)
            = (masked_indices [[0, 1, 1, 1, 0, 0]] ! 0 ! 1)"
    by blast
  then show ?thesis
    using ex_run_none by simp
qed

text \<open>
  C4: when \<^verbatim>\<open>mask_tokens\<close> returns, at every position where the special-tokens mask
  (given, or derived from the tokenizer) is true, the returned input is the original input,
  the label is -100 and the mask label is zeroed, whatever the random draws; with a mask
  that is true everywhere the inputs are returned unchanged, the labels are all -100 and the
  mask labels are all zero.
\<close>

theorem mask_tokens_special_frame:
  assumes "mask_tokens c g inputs mask_labels special_tokens_mask
             = (Inr (inputs', labels), (inputs_after, mask_labels_after))"
  shows "(\<forall>i j. i < length inputs \<and> j < length (inputs ! i)
               \<and> special_mask c inputs special_tokens_mask ! i ! j
            \<longrightarrow> inputs' ! i ! j = inputs ! i ! j \<and> labels ! i ! j = - 100
                \<and> mask_labels_after ! i ! j = 0)
    \<and> ((\<forall>i j. i < length inputs \<and> j < length (inputs ! i)
               \<longrightarrow> special_mask c inputs special_tokens_mask ! i ! j)
         \<longrightarrow> inputs' = inputs \<and> labels = tmap (\<lambda>_. - 100) inputs
             \<and> mask_labels_after = tmap (\<lambda>_. 0) inputs)"
proof -
  note p = mask_tokens_pointwise [OF assms]
  note s = mask_tokens_shapes [OF assms]
  have pos: "inputs' ! i ! j = inputs ! i ! j \<and> labels ! i ! j = - 100
                \<and> mask_labels_after ! i ! j = 0"
    if "i < length inputs" "j < length (inputs ! i)"
      "special_mask c inputs special_tokens_mask ! i ! j" for i j
    using p(1,3,4,5,6) [OF that(1,2)] that(3) by simp
  have "inputs' = inputs \<and> labels = tmap (\<lambda>_. - 100) inputs
             \<and> mask_labels_after = tmap (\<lambda>_. 0) inputs"
    if all: "\<forall>i j. i < length inputs \<and> j < length (inputs ! i)
               \<longrightarrow> special_mask c inputs special_tokens_mask ! i ! j"
  proof (intro conjI)
    show "inputs' = inputs"
      by (rule tensor_eqI [OF s(8)]) (use pos all in blast)
    show "labels = tmap (\<lambda>_. - 100) inputs"
    proof (rule tensor_eqI)
      show "map length labels = map length (tmap (\<lambda>_. - 100) inputs)"
        using s(5) by (simp add: shape_tmap)
      fix i j assume "i < length (tmap (\<lambda>_. - 100 :: int) inputs)"
        "j < length (tmap (\<lambda>_. - 100 :: int) inputs ! i)"
      then have ij: "i < length inputs" "j < length (inputs ! i)"
        by (simp_all add: tmap_def)
      with pos all show "labels ! i ! j = tmap (\<lambda>_. - 100) inputs ! i ! j"
        by (simp add: tmap_nth)
    qed
    show "mask_labels_after = tmap (\<lambda>_. 0) inputs"
    proof (rule tensor_eqI)
      show "map length mask_labels_after = map length (tmap (\<lambda>_. 0) inputs)"
        using s(2) by (simp add: shape_tmap)
      fix i j assume "i < length (tmap (\<lambda>_. 0 :: int) inputs)"
        "j < length (tmap (\<lambda>_. 0 :: int) inputs ! i)"
      then have ij: "i < length inputs" "j < length (inputs ! i)"
        by (simp_all add: tmap_def)
      with pos all show "mask_labels_after ! i ! j = tmap (\<lambda>_. 0) inputs ! i ! j"
        by (simp add: tmap_nth)
    qed
  qed
  with pos show ?thesis by blast
qed

text \<open>
  C5: when \<^verbatim>\<open>mask_tokens\<close> returns, at every position and for every outcome of the two
  Bernoulli tensors and of the random words, the position is not both replaced by the mask
  token and replaced by a random word; either replacement happens at masked positions only;
  the returned input is the mask-token id at a replaced position, the random word at a
  random position and the original input elsewhere, in particular at every unmasked
  position.
\<close>

theorem mask_tokens_three_way:
  assumes "mask_tokens c g inputs mask_labels special_tokens_mask
             = (Inr (inputs', labels), (inputs_after, mask_labels_after))"
    and "i < length inputs" and "j < length (inputs ! i)"
  shows "let masked = masked_indices mask_labels_after;
             replaced = indices_replaced g labels masked;
             random = indices_random g labels masked replaced
         in \<not> (replaced ! i ! j \<and> random ! i ! j)
            \<and> (replaced ! i ! j \<longrightarrow> masked ! i ! j)
            \<and> (random ! i ! j \<longrightarrow> masked ! i ! j)
            \<and> (replaced ! i ! j \<longrightarrow> inputs' ! i ! j = mask_token_id (tokenizer c))
            \<and> (random ! i ! j \<longrightarrow> inputs' ! i ! j = random_words g i j)
            \<and> (\<not> replaced ! i ! j \<and> \<not> random ! i ! j \<longrightarrow> inputs' ! i ! j = inputs ! i ! j)
            \<and> (\<not> masked ! i ! j \<longrightarrow> inputs' ! i ! j = inputs ! i ! j)"
  unfolding Let_def
  using mask_tokens_pointwise(2,4,5,6) [OF assms]
  by auto

text \<open>
  C9: \<^verbatim>\<open>mask_tokens\<close> raises AssertionError exactly when \<^verbatim>\<open>mlm\<close> is false, and then
  both argument tensors are as they were before the call.
\<close>

theorem mask_tokens_assertion:
  "(fst (mask_tokens c g inputs mask_labels special_tokens_mask) = Inl AssertionError) = (\<not> mlm c)
   \<and> (\<not> mlm c \<longrightarrow>
        snd (mask_tokens c g inputs mask_labels special_tokens_mask) = (inputs, mask_labels))"
  by (simp add: mask_tokens_def Let_def)

lemma ex_run_all_special:
  "mask_tokens ex_collator ex_draws [[2, 5]] [[1, 1]] (Some [[1, 1]]) =
     (Inr ([[2, 5]], [[- 100, - 100]]), ([[2, 5]], [[0, 0]]))"
  by code_simp

lemma ex_special_mask_all: "special_mask ex_collator [[2, 5]] (Some [[1, 1]]) = [[True, True]]"
  by (simp add: special_mask_def tmap_def)

theorem mask_tokens_special_frame_witness:
  "mask_tokens ex_collator ex_draws [[2, 5]] [[1, 1]] (Some [[1, 1]]) =
     (Inr ([[2, 5]], [[- 100, - 100]]), ([[2, 5]], [[0, 0]]))
   \<and> special_mask ex_collator [[2, 5]] (Some [[1, 1]]) = [[True, True]]
   \<and> [[- 100, - 100 :: int]] = tmap (\<lambda>_. - 100) [[2, 5 :: int]]
   \<and> [[0, 0 :: int]] = tmap (\<lambda>_. 0) [[2, 5 :: int]]"
proof -
  have h: "\<forall>i j. i < length [[2, 5 :: int]] \<and> j < length ([[2, 5 :: int]] ! i)
             \<longrightarrow> special_mask ex_collator [[2, 5]] (Some [[1, 1]]) ! i ! j"
    by (auto simp: ex_special_mask_all less_Suc_eq numeral_2_eq_2)
  from mask_tokens_special_frame [OF ex_run_all_special] h
  have "[[2, 5]] = [[2, 5 :: int]]
       \<and> [[- 100, - 100 :: int]] = tmap (\<lambda>_. - 100) [[2, 5 :: int]]
       \<and> [[0, 0 :: int]] = tmap (\<lambda>_. 0) [[2, 5 :: int]]"
    by blast
  then show ?thesis
    using ex_run_all_special ex_special_mask_all by simp
qed

lemma ex_indices_replaced:
  "indices_replaced ex_draws [[- 100, 5, 6, 7, - 100, - 100]] (masked_indices [[0, 1, 1, 1, 0, 0]])
     = [[False, False, True, False, False, False]]"
  by code_simp

lemma ex_indices_random:
  "indices_random ex_draws [[- 100, 5, 6, 7, - 100, - 100]] (masked_indices [[0, 1, 1, 1, 0, 0]])
     [[False, False, True, False, False, False]]
     = [[False, True, False, True, False, False]]"
  by code_simp

theorem mask_tokens_three_way_witness:
  "mask_tokens ex_collator ex_draws [[2, 5, 6, 7, 3, 0]] [[0, 1, 1, 1, 0, 1]] None =
     (Inr ([[2, 7, 4, 7, 3, 0]], [[- 100, 5, 6, 7, - 100, - 100]]),
      ([[2, 7, 4, 7, 3, 0]], [[0, 1, 1, 1, 0, 0]]))
   \<and> (0::nat) < length [[2, 5, 6, 7, 3, 0 :: int]] \<and> (1::nat) < length ([[2, 5, 6, 7, 3, 0 :: int]] ! 0)
   \<and> indices_random ex_draws [[- 100, 5, 6, 7, - 100, - 100]] (masked_indices [[0, 1, 1, 1, 0, 0]])
        (indices_replaced ex_draws [[- 100, 5, 6, 7, - 100, - 100]]
           (masked_indices [[0, 1, 1, 1, 0, 0]])) ! 0 ! 1
   \<and> [[2, 7, 4, 7, 3, 0 :: int]] ! 0 ! 1 = random_words ex_draws 0 1"
proof -
  have i: "(0::nat) < length [[2, 5, 6, 7, 3, 0 :: int]]" by simp
  have j: "(1::nat) < length ([[2, 5, 6, 7, 3, 0 :: int]] ! 0)" by simp
  have r: "indices_random ex_draws [[- 100, 5, 6, 7, - 100, - 100]] (masked_indices [[0, 1, 1, 1, 0, 0]])
        (indices_replaced ex_draws [[- 100, 5, 6, 7, - 100, - 100]]
           (masked_indices [[0, 1, 1, 1, 0, 0]])) ! 0 ! 1"
    by (simp add: ex_indices_replaced ex_indices_random)
  from mask_tokens_three_way [OF ex_run_none i j] r
  have "[[2, 7, 4, 7, 3, 0 :: int]] ! 0 ! 1 = random_words ex_draws 0 1"
    unfolding Let_def by blast
  then show ?thesis
    using ex_run_none r by simp
qed

theorem mask_tokens_assertion_witness:
  "\<not> mlm (ex_collator\<lparr>mlm := False\<rparr>)
   \<and> fst (mask_tokens (ex_collator\<lparr>mlm := False\<rparr>) ex_draws [[5]] [[1]] None) = Inl AssertionError
   \<and> snd (mask_tokens (ex_collator\<lparr>mlm := False\<rparr>) ex_draws [[5]] [[1]] None) = ([[5]], [[1]])
   \<and> mlm ex_collator
   \<and> fst (mask_tokens ex_collator ex_draws [[5]] [[1]] None) \<noteq> Inl AssertionError"
  using mask_tokens_assertion [of "ex_collator\<lparr>mlm := False\<rparr>" ex_draws "[[5]]" "[[1]]" None]
    mask_tokens_assertion [of ex_collator ex_draws "[[5]]" "[[1]]" None]
  by (simp add: ex_collator_def)

section \<open>The entry point\<close>

text \<open>
  C7, as the claim states it: the call on an empty list returns a result and raises no
  error. It raises IndexError.
\<close>

theorem call_empty_counterexample:
  "call ex_collator ex_draws [] = Inl IndexError"
  by (simp add: call_def collate_examples_def)

text \<open>
  C7, amended: for every collator, \<^verbatim>\<open>__call__\<close> on an empty list of examples raises
  IndexError, at \<^verbatim>\<open>examples[0]\<close>, before anything is padded.
\<close>

theorem call_empty:
  "call c g [] = Inl IndexError"
  by (simp add: call_def collate_examples_def)

lemma ex_pad_run: "pad (tokenizer ex_collator) ex_examples (pad_to_multiple_of ex_collator) = Inr ex_padded"
  by (simp add: ex_collator_def ex_tokenizer_def ex_pad_def ex_examples_def ex_padded_def)

lemma ex_padded_keys:
  "ex_padded ''input_ids'' = Some [[2, 5, 6, 7, 3, 0]]"
  "ex_padded ''attention_mask'' = Some [[1, 1, 1, 1, 1, 0]]"
  "ex_padded ''special_tokens_mask'' = Some [[1, 0, 0, 0, 1, 1]]"
  by (simp_all add: ex_padded_def ex_enc_def)

lemma ex_cand_indexes_pad:
  "cand_indexes ex_tokenizer (map ex_token [2, 5, 6, 7, 3, 0]) = [[1], [2, 3], [5]]"
  by (simp add: cand_indexes_def ex_token_def ex_tokenizer_def is_cls_or_sep_def
      is_start_piece_sp_def startswith_def word_marker_def special_pieces_def
      special_chars_def enumerate_eq_zip)

lemma replicate_6: "replicate 6 (0::int) = [0, 0, 0, 0, 0, 0]"
  by (simp add: eval_nat_numeral)

lemma ex_whole_word_mask_pad:
  "whole_word_mask ex_collator rev 512 (map ex_token [2, 5, 6, 7, 3, 0]) = Inr [0, 1, 0, 0, 0, 1]"
proof -
  have "tokenizer ex_collator = ex_tokenizer"
    "round_scaled ex_collator (length (map ex_token [2, 5, 6, 7, 3, 0])) = Inr 2"
    "length (map ex_token [2, 5, 6, 7, 3, 0]) = 6"
    by (simp_all add: ex_collator_def round_half_even_def)
  then show ?thesis
    using ex_cand_indexes_pad
    by (simp add: whole_word_mask_def num_to_predict_def replicate_6)
qed

lemma ex_run_flagged:
  "mask_tokens ex_collator ex_draws [[2, 5, 6, 7, 3, 0]] [[0, 1, 0, 0, 0, 1]]
      (Some [[1, 0, 0, 0, 1, 1]]) =
     (Inr ([[2, 7, 6, 7, 3, 0]], [[- 100, 5, - 100, - 100, - 100, - 100]]),
      ([[2, 7, 6, 7, 3, 0]], [[0, 1, 0, 0, 0, 0]]))"
  by code_simp

lemma ex_run_unflagged:
  "mask_tokens ex_collator ex_draws [[2, 5, 6, 7, 3, 0]] [[0, 1, 0, 0, 0, 1]]
      (Some [[1, 0, 0, 0, 1, 0]]) =
     (Inr ([[2, 7, 6, 7, 3, 7]], [[- 100, 5, - 100, - 100, - 100, 0]]),
      ([[2, 7, 6, 7, 3, 7]], [[0, 1, 0, 0, 0, 1]]))"
  by code_simp

lemma ex_call:
  "call ex_collator ex_draws ex_examples =
     Inr ((ex_padded(''special_tokens_mask'' := None))
            (''input_ids'' \<mapsto> [[2, 7, 6, 7, 3, 0]],
             ''labels'' \<mapsto> [[- 100, 5, - 100, - 100, - 100, - 100]]))"
proof -
  have ce: "collate_examples ex_collator ex_examples = Inr ex_padded"
    using ex_pad_run by (simp add: collate_examples_def ex_examples_def)
  have t: "tokenizer ex_collator = ex_tokenizer" "pad_to_multiple_of ex_collator = None"
    "convert_ids_to_tokens ex_tokenizer = map ex_token" "shuffle_row ex_draws 0 = rev"
    "torch_collate_batch ex_collator = (\<lambda>examples multiple. Inr (map ids_of examples))"
    by (simp_all add: ex_collator_def ex_tokenizer_def ex_draws_def)
  have mr: "mask_rows ex_collator ex_draws 0 [[2, 5, 6, 7, 3, 0]] = Inr [[0, 1, 0, 0, 0, 1]]"
    using ex_whole_word_mask_pad by (simp add: t)
  show ?thesis
    by (simp add: call_def ce ex_padded_keys mr t ids_of_def ex_run_flagged del: mask_rows.simps)
qed

text \<open>
  C8, as the claim states it: a provided \<^verbatim>\<open>special_tokens_mask\<close> is passed through to the
  returned mapping. The call returns, the padded batch has the key, and the returned
  mapping does not.
\<close>

theorem call_passes_keys_counterexample:
  "\<not> isl (call ex_collator ex_draws ex_examples)
   \<and> lookup (pad (tokenizer ex_collator) ex_examples (pad_to_multiple_of ex_collator))
        ''special_tokens_mask'' = Some [[1, 0, 0, 0, 1, 1]]
   \<and> lookup (call ex_collator ex_draws ex_examples) ''special_tokens_mask'' = None"
  by (simp add: ex_call ex_pad_run lookup_def ex_padded_keys)

text \<open>
  C8, amended: for every non-empty batch whose first example is a dict/encoding, when the
  call returns, the returned mapping has \<^verbatim>\<open>input_ids\<close> and \<^verbatim>\<open>labels\<close>, it has no
  \<^verbatim>\<open>special_tokens_mask\<close>, and every other key holds what it holds in the padded batch.
\<close>

theorem call_passes_keys:
  assumes "examples = Enc d # rest"
    and "pad (tokenizer c) examples (pad_to_multiple_of c) = Inr padded"
    and "call c g examples = Inr result"
  shows "(\<exists>t. result ''input_ids'' = Some t) \<and> (\<exists>t. result ''labels'' = Some t)
    \<and> result ''special_tokens_mask'' = None
    \<and> (\<forall>k. k \<notin> {''input_ids'', ''labels'', ''special_tokens_mask''} \<longrightarrow> result k = padded k)"
proof -
  have ce: "collate_examples c examples = Inr padded"
    using assms(1,2) by (simp add: collate_examples_def)
  from assms(3) obtain inputs labels where
    "result = (padded(''special_tokens_mask'' := None))(''input_ids'' \<mapsto> inputs, ''labels'' \<mapsto> labels)"
    by (auto simp: call_def ce Let_def split: option.splits sum.splits)
  then show ?thesis by simp
qed

theorem call_passes_keys_witness:
  "ex_examples = Enc ex_enc # []
   \<and> pad (tokenizer ex_collator) ex_examples (pad_to_multiple_of ex_collator) = Inr ex_padded
   \<and> \<not> isl (call ex_collator ex_draws ex_examples)
   \<and> lookup (call ex_collator ex_draws ex_examples) ''input_ids'' = Some [[2, 7, 6, 7, 3, 0]]
   \<and> lookup (call ex_collator ex_draws ex_examples) ''labels''
        = Some [[- 100, 5, - 100, - 100, - 100, - 100]]
   \<and> lookup (call ex_collator ex_draws ex_examples) ''attention_mask''
        = ex_padded ''attention_mask''"
proof -
  have e: "ex_examples = Enc ex_enc # []" by (simp add: ex_examples_def)
  from call_passes_keys [OF e ex_pad_run ex_call]
  show ?thesis
    using e ex_pad_run by (simp add: ex_call lookup_def)
qed

text \<open>
  C10: for the tokens \<^verbatim>\<open>[CLS] _the _quick fox [SEP] <pad>\<close> the pad token is neither
  \<^verbatim>\<open>cls_token\<close> nor \<^verbatim>\<open>sep_token\<close>, it is a start piece and a group of its own, and for
  the shuffle that reverses the groups \<^verbatim>\<open>_whole_word_mask\<close> returns 1 at the pad
  position. \<^verbatim>\<open>mask_tokens\<close> then gives the pad position a label (its id, 0) when the
  special-tokens mask does not flag it, and -100 when the mask flags it.
\<close>

theorem pad_token_masked_by_grouper:
  "ex_token 0 = str ''<pad>''
   \<and> \<not> is_cls_or_sep ex_tokenizer (str ''<pad>'')
   \<and> is_start_piece_sp (str ''<pad>'')
   \<and> cand_indexes ex_tokenizer (map ex_token [2, 5, 6, 7, 3, 0]) = [[1], [2, 3], [5]]
   \<and> whole_word_mask ex_collator rev 512 (map ex_token [2, 5, 6, 7, 3, 0])
        = Inr [0, 1, 0, 0, 0, 1]
   \<and> fst (mask_tokens ex_collator ex_draws [[2, 5, 6, 7, 3, 0]] [[0, 1, 0, 0, 0, 1]]
            (Some [[1, 0, 0, 0, 1, 0]]))
        = Inr ([[2, 7, 6, 7, 3, 7]], [[- 100, 5, - 100, - 100, - 100, 0]])
   \<and> fst (mask_tokens ex_collator ex_draws [[2, 5, 6, 7, 3, 0]] [[0, 1, 0, 0, 0, 1]]
            (Some [[1, 0, 0, 0, 1, 1]]))
        = Inr ([[2, 7, 6, 7, 3, 0]], [[- 100, 5, - 100, - 100, - 100, - 100]])"
proof -
  have "ex_token 0 = str ''<pad>''"
    by (simp add: ex_token_def)
  moreover have "\<not> is_cls_or_sep ex_tokenizer (str ''<pad>'')"
    by (simp add: is_cls_or_sep_def ex_tokenizer_def)
  moreover have "is_start_piece_sp (str ''<pad>'')"
    by (simp add: is_start_piece_sp_def startswith_def)
  ultimately show ?thesis
    by (simp only: ex_cand_indexes_pad ex_whole_word_mask_pad ex_run_flagged ex_run_unflagged
        fst_conv simp_thms)
qed

end
